theory Spec2Isabelle
  imports Main
begin

section \<open>Data model\<close>

text \<open>
  A row of the \<open>Notification\<close> table (db/config.ts). The primary key \<open>id\<close> is called
  \<open>nid\<close> here, since \<open>id\<close> is HOL's identity function. \<open>userId\<close> is the optional text
  column (\<open>None\<close> is SQL NULL), \<open>dismissed\<close> the JSON array of user ids, \<open>createdAt\<close> the
  date as milliseconds since the epoch. Stored ids are mathematical integers, and
  \<open>maxId + 1\<close> is computed exactly, as JavaScript does below \<open>2^53\<close>.
\<close>

record notification =
  nid :: int
  userId :: "string option"
  title :: string
  role :: string
  message :: string
  dismissed :: "string list"
  createdAt :: int

text \<open>
  The store: the rows of the table in insertion order, and the statements issued to
  the database so far (a ghost field, used to say which handlers consult or change the
  store).
\<close>

datatype db_op = Select | Insert | Update

record db =
  rows :: "notification list"
  oplog :: "db_op list"

definition is_write :: "db_op \<Rightarrow> bool" where
  "is_write opn = (opn = Insert \<or> opn = Update)"

definition mutations :: "db \<Rightarrow> nat" where
  "mutations st = length (filter is_write (oplog st))"

definition empty_db :: db where
  "empty_db = \<lparr>rows = [], oplog = []\<rparr>"

text \<open>
  The outcomes of the handlers other than success, by HTTP status:
  400, 403, 404 and 500 (the \<open>catch\<close> block of each handler).
\<close>

datatype error = InvalidInput | Forbidden | NotFound | StorageFailure

section \<open>JavaScript values\<close>

text \<open>
  Query parameters, path parameters and the fields of a JSON body are modelled at their
  documented type, a string that may be absent: \<open>None\<close> is \<open>null\<close> or \<open>undefined\<close>.
  \<open>truthy v\<close> is the JavaScript truth value of such a value, so \<open>!v\<close> is
  \<open>\<not> truthy v\<close>.
\<close>

definition truthy :: "string option \<Rightarrow> bool" where
  "truthy v = (case v of None \<Rightarrow> False | Some s \<Rightarrow> s \<noteq> [])"

definition str_of :: "string option \<Rightarrow> string" where
  "str_of v = (case v of None \<Rightarrow> [] | Some s \<Rightarrow> s)"

subsection \<open>Numbers and parseInt\<close>

text \<open>
  A JavaScript number as far as the handlers meet one: \<open>NaN\<close>, an integer that is a
  double, or an infinity. \<open>-0\<close> is \<open>Finite 0\<close>.
\<close>

datatype js_number = NaN | Finite int | Infinity | NegInfinity

text \<open>
  The double nearest to a non-negative integer, ties to even (\<open>None\<close>: the magnitude
  overflows to infinity). Below \<open>2^53\<close> every integer is a double. Above, the 53 leading
  bits \<open>q\<close> are kept and rounded by the remainder \<open>r\<close>; from \<open>2^1024\<close> on, before or after
  rounding, the result is infinite.
\<close>

function bit_length :: "int \<Rightarrow> nat" where
  "bit_length n = (if n \<le> 0 then 0 else Suc (bit_length (n div 2)))"
  by pat_completeness auto
termination
  by (relation "measure nat") auto

declare bit_length.simps [simp del]

definition round_double :: "int \<Rightarrow> int option" where
  "round_double n =
     (if n < 2 ^ 53 then Some n
      else if 2 ^ 1024 \<le> n then None
      else
        let sh = bit_length n - 53;
            q = n div 2 ^ sh;
            r = n mod 2 ^ sh;
            q' = (if 2 ^ sh < 2 * r \<or> (2 * r = 2 ^ sh \<and> odd q) then q + 1 else q);
            v = q' * 2 ^ sh
        in if 2 ^ 1024 \<le> v then None else Some v)"

text \<open>
  \<open>parseInt(string)\<close> of ECMAScript with no radix argument, on a string given as its
  UTF-8 bytes: leading white space and line terminators (the code points of
  \<open>white_space\<close>, in UTF-8) are dropped, then an optional sign, then the prefix \<open>0x\<close>
  or \<open>0X\<close> selects radix 16, and the longest prefix of digits of the radix is read. With
  no digit the result is \<open>NaN\<close>; otherwise it is the integer read, as a double: rounded
  beyond \<open>2^53\<close>, and infinite for a decimal id of 310 digits. (The standard lets an
  implementation approximate a decimal integer of more than 20 digits; the integer is
  taken exact here, and rounded once.)
\<close>

definition white_space :: "nat list list" where
  "white_space =
     [[0x09], [0x0A], [0x0B], [0x0C], [0x0D], [0x20], [0xC2, 0xA0], [0xE1, 0x9A, 0x80],
      [0xE2, 0x80, 0x80], [0xE2, 0x80, 0x81], [0xE2, 0x80, 0x82], [0xE2, 0x80, 0x83],
      [0xE2, 0x80, 0x84], [0xE2, 0x80, 0x85], [0xE2, 0x80, 0x86], [0xE2, 0x80, 0x87],
      [0xE2, 0x80, 0x88], [0xE2, 0x80, 0x89], [0xE2, 0x80, 0x8A], [0xE2, 0x80, 0xA8],
      [0xE2, 0x80, 0xA9], [0xE2, 0x80, 0xAF], [0xE2, 0x81, 0x9F], [0xE3, 0x80, 0x80],
      [0xEF, 0xBB, 0xBF]]"

definition ws_prefix_len :: "string \<Rightarrow> nat" where
  "ws_prefix_len s =
     (case filter (\<lambda>w. take (length w) (map of_char s) = w) white_space of
        [] \<Rightarrow> 0
      | w # _ \<Rightarrow> length w)"

lemma ws_prefix_len_le: "ws_prefix_len s \<le> length s"
proof (cases "filter (\<lambda>w. take (length w) (map of_char s) = w) white_space")
  case Nil
  then show ?thesis by (simp add: ws_prefix_len_def)
next
  case (Cons w ws)
  then have "w \<in> set (filter (\<lambda>w. take (length w) (map of_char s) = w) white_space)"
    by simp
  then have "take (length w) (map (of_char :: char \<Rightarrow> nat) s) = w" by simp
  then have "length w = min (length s) (length w)"
    by (metis length_map length_take)
  then show ?thesis using Cons by (simp add: ws_prefix_len_def)
qed

function trim_start :: "string \<Rightarrow> string" where
  "trim_start s = (if ws_prefix_len s = 0 then s else trim_start (drop (ws_prefix_len s) s))"
  by pat_completeness auto
termination
proof (relation "measure length")
  show "wf (measure length)" by simp
next
  fix s :: string
  assume "ws_prefix_len s \<noteq> 0"
  moreover have "ws_prefix_len s \<le> length s" by (rule ws_prefix_len_le)
  ultimately show "(drop (ws_prefix_len s) s, s) \<in> measure length" by simp
qed

definition digit_val :: "char \<Rightarrow> nat option" where
  "digit_val c =
     (let n = (of_char c :: nat) in
      if 48 \<le> n \<and> n \<le> 57 then Some (n - 48)
      else if 97 \<le> n \<and> n \<le> 122 then Some (n - 87)
      else if 65 \<le> n \<and> n \<le> 90 then Some (n - 55)
      else None)"

definition is_radix_digit :: "nat \<Rightarrow> char \<Rightarrow> bool" where
  "is_radix_digit R c = (case digit_val c of None \<Rightarrow> False | Some d \<Rightarrow> d < R)"

definition digits_value :: "nat \<Rightarrow> string \<Rightarrow> int" where
  "digits_value R Z =
     foldl (\<lambda>a c. a * int R + (case digit_val c of None \<Rightarrow> 0 | Some d \<Rightarrow> int d)) 0 Z"

definition parseInt :: "string \<Rightarrow> js_number" where
  "parseInt inputString =
     (let S = trim_start inputString;
          negative = (S \<noteq> [] \<and> hd S = CHR ''-'');
          S1 = (if S \<noteq> [] \<and> (hd S = CHR ''+'' \<or> hd S = CHR ''-'') then tl S else S);
          hex = (take 2 S1 = ''0x'' \<or> take 2 S1 = ''0X'');
          R = (if hex then 16 else 10);
          S2 = (if hex then drop 2 S1 else S1);
          Z = takeWhile (is_radix_digit R) S2
      in if Z = [] then NaN
         else
           case round_double (digits_value R Z) of
             None \<Rightarrow> if negative then NegInfinity else Infinity
           | Some m \<Rightarrow> Finite (if negative then - m else m))"

section \<open>The storage layer\<close>

text \<open>
  The statements the handlers issue through \<open>astro:db\<close>. A select filters the rows and
  returns them in table order; \<open>MAX(id)\<close> is NULL on an empty table; an insert appends
  a row and fails on a primary key that is already there; an update rewrites the
  \<open>dismissed\<close> column of the rows that match its condition and returns them.
\<close>

definition select_where :: "(notification \<Rightarrow> bool) \<Rightarrow> db \<Rightarrow> notification list \<times> db" where
  "select_where P st = (filter P (rows st), st\<lparr>oplog := oplog st @ [Select]\<rparr>)"

fun max_list :: "int list \<Rightarrow> int option" where
  "max_list [] = None"
| "max_list (x # xs) = (case max_list xs of None \<Rightarrow> Some x | Some m \<Rightarrow> Some (max x m))"

definition select_max_id :: "db \<Rightarrow> int option \<times> db" where
  "select_max_id st = (max_list (map nid (rows st)), st\<lparr>oplog := oplog st @ [Select]\<rparr>)"

definition insert_row :: "notification \<Rightarrow> db \<Rightarrow> (error + notification) \<times> db" where
  "insert_row n st =
     (if nid n \<in> set (map nid (rows st))
      then (Inl StorageFailure, st\<lparr>oplog := oplog st @ [Insert]\<rparr>)
      else (Inr n, st\<lparr>rows := rows st @ [n], oplog := oplog st @ [Insert]\<rparr>))"

text \<open>
  The condition \<open>eq(Notification.id, v)\<close> of a statement, for the value \<open>v\<close> of
  \<open>notificationId\<close> (\<open>None\<close> is \<open>null\<close>, which equals no id). The database client is
  outside the repository; it takes only finite numbers as arguments of a statement, so
  with \<open>NaN\<close> or an infinity the statement throws. That is the storage failure of
  section 7 of the specification, which the handler's \<open>catch\<close> answers with 500.
\<close>

definition eq_id :: "js_number option \<Rightarrow> error + (notification \<Rightarrow> bool)" where
  "eq_id v =
     (case v of
        None \<Rightarrow> Inr (\<lambda>n. False)
      | Some (Finite i) \<Rightarrow> Inr (\<lambda>n. nid n = i)
      | Some _ \<Rightarrow> Inl StorageFailure)"

definition update_dismissed ::
  "(notification \<Rightarrow> bool) \<Rightarrow> string list \<Rightarrow> db \<Rightarrow> notification list \<times> db" where
  "update_dismissed P d st =
     (let rs = map (\<lambda>n. if P n then n\<lparr>dismissed := d\<rparr> else n) (rows st)
      in (filter P rs, st\<lparr>rows := rs, oplog := oplog st @ [Update]\<rparr>))"

text \<open>
  Modelled from the spec: the result order of \<open>ORDER BY createdAt DESC\<close>, which the
  database engine computes and the repository does not contain. Section 4.1 of the
  specification gives it: by \<open>createdAt\<close> descending, ties broken by insertion order
  (stable). This is the stable insertion sort on the negated timestamp.
\<close>

definition order_by_createdAt_desc :: "notification list \<Rightarrow> notification list" where
  "order_by_createdAt_desc ns = sort_key (\<lambda>n. - createdAt n) ns"

section \<open>GET /api/notifications\<close>

text \<open>
  The query parameters \<open>userId\<close> and \<open>role\<close> are \<open>None\<close> when absent. The \<open>where\<close> clause
  is the conjunction of \<open>role_match\<close> and \<open>audience_match\<close>. The guard
  \<open>Array.isArray(notification.dismissed)\<close> is the identity here: the column holds an
  array in every row the handlers and the seed write. The answer is the list with its
  count.
\<close>

definition role_match :: "string \<Rightarrow> notification \<Rightarrow> bool" where
  "role_match userRole n = (role n = userRole \<or> role n = ''all'')"

definition audience_match :: "string \<Rightarrow> notification \<Rightarrow> bool" where
  "audience_match u n = (userId n = None \<or> userId n = Some u)"

definition GET_notifications ::
  "db \<Rightarrow> string option \<Rightarrow> string option \<Rightarrow> (error + notification list \<times> nat) \<times> db" where
  "GET_notifications st userId' userRole =
     (if \<not> truthy userId' \<or> \<not> truthy userRole then (Inl InvalidInput, st)
      else
        let u = str_of userId'; r = str_of userRole;
            (selected, st1) = select_where (\<lambda>n. role_match r n \<and> audience_match u n) st;
            notifications = order_by_createdAt_desc selected;
            activeNotifications = filter (\<lambda>n. u \<notin> set (dismissed n)) notifications
        in (Inr (activeNotifications, length activeNotifications), st1))"

section \<open>POST /api/notifications\<close>

record create_body =
  b_title :: "string option"
  b_message :: "string option"
  b_role :: "string option"
  b_userId :: "string option"
  b_currentUserRole :: "string option"

definition validRoles :: "string list" where
  "validRoles = [''admin'', ''editor'', ''user'', ''all'']"

text \<open>\<open>maxId || 0\<close>: NULL and 0 both give 0.\<close>

definition or_zero :: "int option \<Rightarrow> int" where
  "or_zero m = (case m of None \<Rightarrow> 0 | Some k \<Rightarrow> if k = 0 then 0 else k)"

text \<open>
  The body is \<open>None\<close> when \<open>request.json()\<close> throws or yields \<open>null\<close>, which cannot
  be destructured; the handler's \<open>catch\<close> answers 500. A JSON value that is no object
  destructures to absent fields, as a body with every field \<open>None\<close>. \<open>now\<close> is the
  value of \<open>new Date()\<close>.
\<close>

definition POST_notifications ::
  "db \<Rightarrow> create_body option \<Rightarrow> int \<Rightarrow> (error + notification) \<times> db" where
  "POST_notifications st body now =
     (case body of
        None \<Rightarrow> (Inl StorageFailure, st)
      | Some b \<Rightarrow>
          if b_currentUserRole b \<noteq> Some ''admin'' then (Inl Forbidden, st)
          else if \<not> truthy (b_title b) \<or> \<not> truthy (b_message b) \<or> \<not> truthy (b_role b)
            then (Inl InvalidInput, st)
          else if str_of (b_role b) \<notin> set validRoles then (Inl InvalidInput, st)
          else
            let (maxId, st1) = select_max_id st;
                nextId = or_zero maxId + 1
            in insert_row
                 \<lparr>nid = nextId,
                  userId = (if truthy (b_userId b) then b_userId b else None),
                  title = str_of (b_title b),
                  role = str_of (b_role b),
                  message = str_of (b_message b),
                  dismissed = [],
                  createdAt = now\<rparr> st1)"

section \<open>POST /api/notifications/[id]/dismiss\<close>

record dismiss_body =
  d_userId :: "string option"

text \<open>
  \<open>notificationId\<close> is \<open>None\<close> for \<open>null\<close>; \<open>!notificationId\<close> holds for \<open>null\<close>,
  \<open>NaN\<close> and 0, and for no other number. The body is \<open>None\<close> when \<open>request.json()\<close>
  throws or yields \<open>null\<close>. The two 200 answers: the notification was already
  dismissed by the user (the record as read), or it was updated (the first row the
  update returned, if any).
\<close>

datatype dismiss_ok = AlreadyDismissed notification | Dismissed "notification option"

definition falsy_number :: "js_number option \<Rightarrow> bool" where
  "falsy_number v = (v = None \<or> v = Some NaN \<or> v = Some (Finite 0))"

definition POST_dismiss ::
  "db \<Rightarrow> string option \<Rightarrow> dismiss_body option \<Rightarrow> (error + dismiss_ok) \<times> db" where
  "POST_dismiss st params_id body =
     (let notificationId =
            (if truthy params_id then Some (parseInt (str_of params_id)) else None) in
      if falsy_number notificationId then (Inl InvalidInput, st)
      else
        (case body of
           None \<Rightarrow> (Inl StorageFailure, st)
         | Some b \<Rightarrow>
             if \<not> truthy (d_userId b) then (Inl InvalidInput, st)
             else
               (case eq_id notificationId of
                  Inl e \<Rightarrow> (Inl e, st\<lparr>oplog := oplog st @ [Select]\<rparr>)
                | Inr has_id \<Rightarrow>
                    let u = str_of (d_userId b);
                        (found, st1) = select_where has_id st
                    in (case take 1 found of
                          [] \<Rightarrow> (Inl NotFound, st1)
                        | notification # _ \<Rightarrow>
                            let dismissedUsers = dismissed notification in
                            if u \<in> set dismissedUsers
                            then (Inr (AlreadyDismissed notification), st1)
                            else
                              let updatedDismissed = dismissedUsers @ [u];
                                  (updated, st2) =
                                     update_dismissed has_id updatedDismissed st1
                              in (Inr (Dismissed
                                         (case updated of [] \<Rightarrow> None | x # _ \<Rightarrow> Some x)),
                                  st2)))))"

section \<open>Sequences of requests\<close>

text \<open>
  The three exposed operations as requests, and the store after a request: each handler
  is run on the current store and its answer dropped.
\<close>

datatype request =
    Create "create_body option" int
  | ListVisible "string option" "string option"
  | Dismiss "string option" "dismiss_body option"

fun step :: "db \<Rightarrow> request \<Rightarrow> db" where
  "step st (Create body now) = snd (POST_notifications st body now)"
| "step st (ListVisible userId' userRole) = snd (GET_notifications st userId' userRole)"
| "step st (Dismiss params_id body) = snd (POST_dismiss st params_id body)"

definition run :: "db \<Rightarrow> request list \<Rightarrow> db" where
  "run st reqs = foldl step st reqs"

text \<open>
  A well-formed store: the primary key is unique (the database enforces it) and no
  \<open>dismissed\<close> array holds a user twice. The empty store and the seeded one
  (db/seed.ts: ids 1 to 5, every \<open>dismissed\<close> empty) are well formed.
\<close>

definition wf_db :: "db \<Rightarrow> bool" where
  "wf_db st =
     (distinct (map nid (rows st)) \<and> list_all (\<lambda>n. distinct (dismissed n)) (rows st))"

text \<open>
  \<open>grown a b\<close>: \<open>b\<close> is the notification \<open>a\<close> with a \<open>dismissed\<close> array that lost
  nothing. \<open>evolves rs rs'\<close>: every row of \<open>rs\<close> is still there, at its place, grown.
\<close>

definition grown :: "notification \<Rightarrow> notification \<Rightarrow> bool" where
  "grown a b =
     (b = a\<lparr>dismissed := dismissed b\<rparr>
      \<and> set (dismissed a) \<subseteq> set (dismissed b)
      \<and> length (dismissed a) \<le> length (dismissed b))"

definition evolves :: "notification list \<Rightarrow> notification list \<Rightarrow> bool" where
  "evolves rs rs' =
     (length rs \<le> length rs' \<and> list_all2 grown rs (take (length rs) rs'))"

section \<open>Example data\<close>

text \<open>
  A small store in the shape of the seed and of the specification's scenarios: an admin
  broadcast, a broadcast to all, a notification for user \<open>u1\<close> only (created at the same
  time as the one before), and an editor broadcast that \<open>u2\<close> has dismissed.
\<close>

definition scenario_db :: db where
  "scenario_db =
     \<lparr>rows =
        [\<lparr>nid = 1, userId = None, title = ''Maintenance'', role = ''admin'',
          message = ''m1'', dismissed = [], createdAt = 10\<rparr>,
         \<lparr>nid = 2, userId = None, title = ''Welcome'', role = ''all'',
          message = ''m2'', dismissed = [], createdAt = 20\<rparr>,
         \<lparr>nid = 3, userId = Some ''u1'', title = ''Alert'', role = ''admin'',
          message = ''m3'', dismissed = [], createdAt = 20\<rparr>,
         \<lparr>nid = 4, userId = None, title = ''Meeting'', role = ''editor'',
          message = ''m4'', dismissed = [''u2''], createdAt = 30\<rparr>],
      oplog = []\<rparr>"

definition admin_body :: create_body where
  "admin_body =
     \<lparr>b_title = Some ''Hello'', b_message = Some ''World'', b_role = Some ''all'',
      b_userId = Some [], b_currentUserRole = Some ''admin''\<rparr>"

definition user_body :: create_body where
  "user_body = admin_body\<lparr>b_currentUserRole := Some ''user''\<rparr>"

definition untitled_body :: create_body where
  "untitled_body = admin_body\<lparr>b_title := Some []\<rparr>"

definition u1_body :: dismiss_body where
  "u1_body = \<lparr>d_userId = Some ''u1''\<rparr>"


section \<open>Facts about the JavaScript helpers and the storage layer\<close>

lemma ws_prefix_len_Nil: "ws_prefix_len [] = 0"
  by (simp add: ws_prefix_len_def white_space_def)

lemma parseInt_Nil: "parseInt [] = NaN"
  by (simp add: parseInt_def ws_prefix_len_Nil)

lemma parseInt_truthy: "parseInt p \<noteq> NaN \<Longrightarrow> truthy (Some p)"
  using parseInt_Nil by (auto simp: truthy_def)



lemma or_zero_simps: "or_zero None = 0" "or_zero (Some k) = k"
  by (simp_all add: or_zero_def)

lemma max_list_Max: "xs \<noteq> [] \<Longrightarrow> max_list xs = Some (Max (set xs))"
proof (induction xs)
  case Nil
  then show ?case by simp
next
  case (Cons x xs)
  show ?case
  proof (cases "xs = []")
    case True
    then show ?thesis by simp
  next
    case False
    with Cons.IH have "max_list xs = Some (Max (set xs))" by simp
    with False show ?thesis by simp
  qed
qed

lemma next_id_fresh: "or_zero (max_list xs) + 1 \<notin> set xs"
proof (cases "xs = []")
  case True
  then show ?thesis by simp
next
  case False
  then have m: "max_list xs = Some (Max (set xs))" by (rule max_list_Max)
  have "Max (set xs) + 1 \<notin> set xs"
  proof
    assume "Max (set xs) + 1 \<in> set xs"
    then have "Max (set xs) + 1 \<le> Max (set xs)"
      using Max_ge [of "set xs" "Max (set xs) + 1"] by simp
    then show False by simp
  qed
  with m show ?thesis by (simp add: or_zero_simps)
qed

lemma next_id_value:
  "or_zero (max_list xs) + 1 = (if xs = [] then 1 else Max (set xs) + 1)"
  by (simp add: max_list_Max or_zero_simps)

lemma mutations_select: "mutations (st\<lparr>oplog := oplog st @ [Select]\<rparr>) = mutations st"
  by (simp add: mutations_def is_write_def)

section \<open>The handlers, case by case\<close>

lemma GET_notifications_ok:
  assumes "u \<noteq> []" and "r \<noteq> []"
  shows "GET_notifications st (Some u) (Some r) =
    (Inr (filter (\<lambda>n. u \<notin> set (dismissed n))
            (sort_key (\<lambda>n. - createdAt n)
               (filter (\<lambda>n. role_match r n \<and> audience_match u n) (rows st))),
          length (filter (\<lambda>n. u \<notin> set (dismissed n))
            (sort_key (\<lambda>n. - createdAt n)
               (filter (\<lambda>n. role_match r n \<and> audience_match u n) (rows st))))),
     st\<lparr>oplog := oplog st @ [Select]\<rparr>)"
  using assms
  by (simp add: GET_notifications_def truthy_def str_of_def select_where_def
      order_by_createdAt_desc_def Let_def)

lemma GET_notifications_rows: "rows (snd (GET_notifications st v r)) = rows st"
  by (simp add: GET_notifications_def select_where_def Let_def)

lemma GET_notifications_oplog:
  "fst (GET_notifications (st\<lparr>oplog := l\<rparr>) v r) = fst (GET_notifications st v r)"
  by (simp add: GET_notifications_def select_where_def Let_def)

lemma POST_notifications_Inr:
  assumes "POST_notifications st body now = (Inr n, st')"
  shows "rows st' = rows st @ [n] \<and> dismissed n = []
       \<and> nid n = or_zero (max_list (map nid (rows st))) + 1
       \<and> oplog st' = oplog st @ [Select, Insert]"
  using assms
  by (auto simp: POST_notifications_def select_max_id_def insert_row_def Let_def
      split: option.splits if_splits)

lemma POST_notifications_ok:
  assumes "b_currentUserRole b = Some ''admin''"
    and "truthy (b_title b)" and "truthy (b_message b)" and "truthy (b_role b)"
    and "str_of (b_role b) \<in> set validRoles"
  shows "\<exists>n. POST_notifications st (Some b) now =
           (Inr n, st\<lparr>rows := rows st @ [n], oplog := oplog st @ [Select, Insert]\<rparr>)
         \<and> userId n = (if truthy (b_userId b) then b_userId b else None)
         \<and> title n = str_of (b_title b) \<and> message n = str_of (b_message b)
         \<and> role n = str_of (b_role b) \<and> dismissed n = [] \<and> createdAt n = now"
  using assms next_id_fresh [of "map nid (rows st)"]
  by (simp add: POST_notifications_def select_max_id_def insert_row_def Let_def)

lemma POST_notifications_rows:
  "rows (snd (POST_notifications st body now)) = rows st
 \<or> (\<exists>n. rows (snd (POST_notifications st body now)) = rows st @ [n]
        \<and> dismissed n = [] \<and> nid n \<notin> nid ` set (rows st))"
  by (auto simp: POST_notifications_def select_max_id_def insert_row_def Let_def
      split: option.splits)

lemma POST_dismiss_invalid_id:
  assumes "parseInt (str_of params_id) = NaN \<or> parseInt (str_of params_id) = Finite 0"
  shows "POST_dismiss st params_id body = (Inl InvalidInput, st)"
  using assms by (auto simp: POST_dismiss_def Let_def falsy_number_def)

lemma POST_dismiss_overflow:
  assumes "parseInt p = Infinity \<or> parseInt p = NegInfinity"
    and "d_userId b = Some u" and "u \<noteq> []"
  shows "POST_dismiss st (Some p) (Some b)
       = (Inl StorageFailure, st\<lparr>oplog := oplog st @ [Select]\<rparr>)"
proof -
  from assms(1) have "parseInt p \<noteq> NaN" by auto
  then have "truthy (Some p)" by (rule parseInt_truthy)
  with assms show ?thesis
    by (auto simp: POST_dismiss_def Let_def str_of_def truthy_def falsy_number_def eq_id_def)
qed

lemma update_filter:
  "filter (\<lambda>m. nid m = i) (map (\<lambda>m. if nid m = i then m\<lparr>dismissed := d\<rparr> else m) rs)
     = map (\<lambda>m. m\<lparr>dismissed := d\<rparr>) (filter (\<lambda>n. nid n = i) rs)"
  by (induction rs) auto

lemma POST_dismiss_valid:
  assumes "parseInt p = Finite i" and "i \<noteq> 0" and "d_userId b = Some u" and "u \<noteq> []"
  shows "POST_dismiss st (Some p) (Some b) =
    (case filter (\<lambda>n. nid n = i) (rows st) of
       [] \<Rightarrow> (Inl NotFound, st\<lparr>oplog := oplog st @ [Select]\<rparr>)
     | n # _ \<Rightarrow>
         if u \<in> set (dismissed n)
         then (Inr (AlreadyDismissed n), st\<lparr>oplog := oplog st @ [Select]\<rparr>)
         else (Inr (Dismissed (Some (n\<lparr>dismissed := dismissed n @ [u]\<rparr>))),
               st\<lparr>rows := map (\<lambda>m. if nid m = i then m\<lparr>dismissed := dismissed n @ [u]\<rparr> else m)
                             (rows st),
                  oplog := oplog st @ [Select, Update]\<rparr>))"
proof -
  have t: "truthy (Some p)" using assms(1) by (simp add: parseInt_truthy)
  show ?thesis
  proof (cases "filter (\<lambda>n. nid n = i) (rows st)")
    case Nil
    with assms t show ?thesis
      by (simp add: POST_dismiss_def Let_def str_of_def truthy_def select_where_def
          falsy_number_def eq_id_def)
  next
    case (Cons n ns)
    then have "n \<in> set (filter (\<lambda>n. nid n = i) (rows st))" by simp
    then have n: "nid n = i" by simp
    show ?thesis
      using assms t Cons n
      by (simp add: POST_dismiss_def Let_def str_of_def truthy_def select_where_def
          falsy_number_def eq_id_def update_dismissed_def update_filter)
  qed
qed

text \<open>
  The outcomes of a dismissal, by its arguments: a path id that is missing or parses
  to \<open>NaN\<close> or 0, a body that is no object, a missing user id, a path id that parses
  to an infinity, or a well-formed request for the id \<open>i\<close> and the user \<open>u\<close>.
\<close>

lemma POST_dismiss_cases:
  obtains (bad_id) "parseInt (str_of params_id) = NaN \<or> parseInt (str_of params_id) = Finite 0"
  | (no_body) "POST_dismiss st params_id body = (Inl StorageFailure, st)"
  | (no_user) "POST_dismiss st params_id body = (Inl InvalidInput, st)"
  | (overflow) p b u where "params_id = Some p" and "body = Some b"
      and "parseInt p = Infinity \<or> parseInt p = NegInfinity"
      and "d_userId b = Some u" and "u \<noteq> []"
  | (valid) p i b u where "params_id = Some p" and "body = Some b"
      and "parseInt p = Finite i" and "i \<noteq> 0" and "d_userId b = Some u" and "u \<noteq> []"
proof (cases "parseInt (str_of params_id) = NaN \<or> parseInt (str_of params_id) = Finite 0")
  case True
  then show ?thesis by (rule bad_id)
next
  case False
  then obtain p where p: "params_id = Some p"
    using parseInt_Nil by (cases params_id) (auto simp: str_of_def)
  with False have pn: "parseInt p \<noteq> NaN" "parseInt p \<noteq> Finite 0"
    by (simp_all add: str_of_def)
  have t: "truthy (Some p)" using pn(1) by (rule parseInt_truthy)
  show ?thesis
  proof (cases body)
    case None
    with p pn t have "POST_dismiss st params_id body = (Inl StorageFailure, st)"
      by (simp add: POST_dismiss_def Let_def str_of_def falsy_number_def)
    then show ?thesis by (rule no_body)
  next
    case (Some b)
    show ?thesis
    proof (cases "truthy (d_userId b)")
      case False
      with Some p pn t have "POST_dismiss st params_id body = (Inl InvalidInput, st)"
        by (simp add: POST_dismiss_def Let_def str_of_def falsy_number_def)
      then show ?thesis by (rule no_user)
    next
      case True
      then obtain u where u: "d_userId b = Some u" "u \<noteq> []"
        by (cases "d_userId b") (auto simp: truthy_def)
      show ?thesis
      proof (cases "parseInt p")
        case NaN
        with pn show ?thesis by simp
      next
        case (Finite i)
        with pn have "i \<noteq> 0" by simp
        with p Some Finite u show ?thesis by (simp add: valid)
      next
        case Infinity
        with p Some u show ?thesis by (simp add: overflow)
      next
        case NegInfinity
        with p Some u show ?thesis by (simp add: overflow)
      qed
    qed
  qed
qed

lemma POST_dismiss_rows:
  "rows (snd (POST_dismiss st params_id body)) = rows st
 \<or> (\<exists>i n ns u. filter (\<lambda>m. nid m = i) (rows st) = n # ns \<and> u \<notin> set (dismissed n)
        \<and> rows (snd (POST_dismiss st params_id body))
          = map (\<lambda>m. if nid m = i then m\<lparr>dismissed := dismissed n @ [u]\<rparr> else m) (rows st))"
proof (cases rule: POST_dismiss_cases [where params_id = params_id and st = st and body = body])
  case bad_id
  then show ?thesis by (simp add: POST_dismiss_invalid_id)
next
  case no_body
  then show ?thesis by simp
next
  case no_user
  then show ?thesis by simp
next
  case (overflow p b u)
  show ?thesis
    unfolding overflow(1,2) POST_dismiss_overflow [OF overflow(3-5)] by simp
next
  case (valid p i b u)
  show ?thesis
    unfolding valid(1,2) POST_dismiss_valid [OF valid(3-6)]
    by (cases "filter (\<lambda>n. nid n = i) (rows st)") auto
qed

text \<open>A second dismissal of an existing notification by the same user changes nothing.\<close>

lemma POST_dismiss_again:
  assumes "parseInt p = Finite i" and "i \<noteq> 0" and "d_userId b = Some u" and "u \<noteq> []"
    and "i \<in> nid ` set (rows st)"
  shows "\<exists>ok1 st1 n st2.
           POST_dismiss st (Some p) (Some b) = (Inr ok1, st1)
         \<and> POST_dismiss st1 (Some p) (Some b) = (Inr (AlreadyDismissed n), st2)
         \<and> n \<in> set (rows st1) \<and> nid n = i \<and> u \<in> set (dismissed n)
         \<and> rows st2 = rows st1 \<and> mutations st2 = mutations st1"
proof -
  let ?sel = "\<lambda>s. s\<lparr>oplog := oplog s @ [Select]\<rparr>"
  have noop: "\<exists>st2. POST_dismiss s (Some p) (Some b) = (Inr (AlreadyDismissed n), st2)
         \<and> n \<in> set (rows s) \<and> nid n = i \<and> u \<in> set (dismissed n)
         \<and> rows st2 = rows s \<and> mutations st2 = mutations s"
    if "filter (\<lambda>n. nid n = i) (rows s) = n # ns" "u \<in> set (dismissed n)" for s n ns
  proof -
    from that(1) have "n \<in> set (filter (\<lambda>n. nid n = i) (rows s))" by simp
    then have "n \<in> set (rows s)" "nid n = i" by simp_all
    moreover have "POST_dismiss s (Some p) (Some b) = (Inr (AlreadyDismissed n), ?sel s)"
      unfolding POST_dismiss_valid [OF assms(1-4)] using that by simp
    moreover have "mutations (?sel s) = mutations s"
      by (rule mutations_select)
    ultimately show ?thesis using that(2) by simp
  qed
  from assms(5) obtain n ns where f: "filter (\<lambda>n. nid n = i) (rows st) = n # ns"
    by (cases "filter (\<lambda>n. nid n = i) (rows st)") (auto simp: filter_empty_conv)
  show ?thesis
  proof (cases "u \<in> set (dismissed n)")
    case True
    then have 1: "POST_dismiss st (Some p) (Some b) = (Inr (AlreadyDismissed n), ?sel st)"
      unfolding POST_dismiss_valid [OF assms(1-4)] using f by simp
    have "filter (\<lambda>n. nid n = i) (rows (?sel st)) = n # ns" using f by simp
    from noop [OF this True] 1 show ?thesis by blast
  next
    case False
    let ?d = "dismissed n @ [u]"
    let ?st1 = "st\<lparr>rows := map (\<lambda>m. if nid m = i then m\<lparr>dismissed := ?d\<rparr> else m) (rows st),
                  oplog := oplog st @ [Select, Update]\<rparr>"
    from False have 1: "POST_dismiss st (Some p) (Some b) =
        (Inr (Dismissed (Some (n\<lparr>dismissed := ?d\<rparr>))), ?st1)"
      unfolding POST_dismiss_valid [OF assms(1-4)] using f by simp
    have "filter (\<lambda>n. nid n = i) (rows ?st1)
        = n\<lparr>dismissed := ?d\<rparr> # map (\<lambda>m. m\<lparr>dismissed := ?d\<rparr>) ns"
      using f by (simp add: update_filter)
    from noop [OF this] 1 show ?thesis by auto
  qed
qed

lemma POST_dismiss_rows_twice:
  "rows (snd (POST_dismiss (snd (POST_dismiss st params_id body)) params_id body))
     = rows (snd (POST_dismiss st params_id body))"
proof (cases rule: POST_dismiss_cases [where params_id = params_id and st = st and body = body])
  case bad_id
  then show ?thesis by (simp add: POST_dismiss_invalid_id)
next
  case no_body
  then show ?thesis by simp
next
  case no_user
  then show ?thesis by simp
next
  case (overflow p b u)
  show ?thesis
    unfolding overflow(1,2) POST_dismiss_overflow [OF overflow(3-5)] by simp
next
  case (valid p i b u)
  show ?thesis
  proof (cases "i \<in> nid ` set (rows st)")
    case True
    from POST_dismiss_again [OF valid(3-6) True] show ?thesis
      unfolding valid(1,2) by auto
  next
    case False
    then have "filter (\<lambda>n. nid n = i) (rows st) = []"
      by (auto simp: filter_empty_conv)
    then show ?thesis
      unfolding valid(1,2) POST_dismiss_valid [OF valid(3-6)] by simp
  qed
qed

section \<open>Stores along a sequence of requests\<close>

lemma grown_refl: "grown a a"
  by (simp add: grown_def)

lemma grown_trans: "grown a b \<Longrightarrow> grown b c \<Longrightarrow> grown a c"
  unfolding grown_def
proof (intro conjI)
  assume ab: "b = a\<lparr>dismissed := dismissed b\<rparr> \<and> set (dismissed a) \<subseteq> set (dismissed b)
      \<and> length (dismissed a) \<le> length (dismissed b)"
    and bc: "c = b\<lparr>dismissed := dismissed c\<rparr> \<and> set (dismissed b) \<subseteq> set (dismissed c)
      \<and> length (dismissed b) \<le> length (dismissed c)"
  from ab have "b = a\<lparr>dismissed := dismissed b\<rparr>" by simp
  moreover from bc have "c = b\<lparr>dismissed := dismissed c\<rparr>" by simp
  ultimately have "c = a\<lparr>dismissed := dismissed b\<rparr>\<lparr>dismissed := dismissed c\<rparr>" by simp
  then show "c = a\<lparr>dismissed := dismissed c\<rparr>" by simp
  from ab bc show "set (dismissed a) \<subseteq> set (dismissed c)" by blast
  from ab bc show "length (dismissed a) \<le> length (dismissed c)" by linarith
qed

lemma evolves_refl: "evolves rs rs"
  by (simp add: evolves_def list_all2_same grown_refl)

lemma evolves_append: "evolves rs (rs @ ns)"
  by (simp add: evolves_def list_all2_same grown_refl)

lemma evolves_trans:
  assumes "evolves rs rs'" and "evolves rs' rs''"
  shows "evolves rs rs''"
proof -
  from assms have l: "length rs \<le> length rs'" "length rs' \<le> length rs''"
    by (simp_all add: evolves_def)
  have "grown (rs ! k) (rs'' ! k)" if "k < length rs" for k
  proof -
    from assms(1) that l have "grown (rs ! k) (rs' ! k)"
      by (auto simp: evolves_def list_all2_conv_all_nth)
    moreover from assms(2) that l have "grown (rs' ! k) (rs'' ! k)"
      by (auto simp: evolves_def list_all2_conv_all_nth)
    ultimately show ?thesis by (rule grown_trans)
  qed
  with l show ?thesis
    by (simp add: evolves_def list_all2_conv_all_nth)
qed

text \<open>
  With a unique primary key, the update of \<open>POST_dismiss\<close> appends the user to the
  \<open>dismissed\<close> array of the one row it read.
\<close>

lemma update_unique_row:
  assumes "distinct (map nid rs)" and "filter (\<lambda>m. nid m = i) rs = n # ns"
  shows "map (\<lambda>m. if nid m = i then m\<lparr>dismissed := dismissed n @ [u]\<rparr> else m) rs
       = map (\<lambda>m. if nid m = i then m\<lparr>dismissed := dismissed m @ [u]\<rparr> else m) rs"
proof (rule map_cong [OF refl])
  fix m assume m: "m \<in> set rs"
  from assms(2) have "n \<in> set (filter (\<lambda>m. nid m = i) rs)" by simp
  then have n: "n \<in> set rs" "nid n = i" by simp_all
  from assms(1) have "inj_on nid (set rs)" by (simp add: distinct_map)
  with m n have "nid m = i \<Longrightarrow> m = n" by (auto dest: inj_onD)
  then show "(if nid m = i then m\<lparr>dismissed := dismissed n @ [u]\<rparr> else m)
           = (if nid m = i then m\<lparr>dismissed := dismissed m @ [u]\<rparr> else m)" by auto
qed

lemma step_rows:
  assumes "wf_db st"
  shows "wf_db (step st req) \<and> evolves (rows st) (rows (step st req))"
proof (cases req)
  case (Create body now)
  from POST_notifications_rows [of st body now] show ?thesis
  proof
    assume "rows (snd (POST_notifications st body now)) = rows st"
    with assms Create show ?thesis by (simp add: wf_db_def evolves_refl)
  next
    assume "\<exists>n. rows (snd (POST_notifications st body now)) = rows st @ [n]
        \<and> dismissed n = [] \<and> nid n \<notin> nid ` set (rows st)"
    then obtain n where "rows (snd (POST_notifications st body now)) = rows st @ [n]"
      "dismissed n = []" "nid n \<notin> nid ` set (rows st)" by blast
    with assms Create show ?thesis by (simp add: wf_db_def evolves_append)
  qed
next
  case (ListVisible v r)
  with assms show ?thesis by (simp add: wf_db_def GET_notifications_rows evolves_refl)
next
  case (Dismiss params_id body)
  from POST_dismiss_rows [of st params_id body] show ?thesis
  proof
    assume "rows (snd (POST_dismiss st params_id body)) = rows st"
    with assms Dismiss show ?thesis by (simp add: wf_db_def evolves_refl)
  next
    assume "\<exists>i n ns u. filter (\<lambda>m. nid m = i) (rows st) = n # ns \<and> u \<notin> set (dismissed n)
        \<and> rows (snd (POST_dismiss st params_id body))
          = map (\<lambda>m. if nid m = i then m\<lparr>dismissed := dismissed n @ [u]\<rparr> else m) (rows st)"
    then obtain i n ns u where f: "filter (\<lambda>m. nid m = i) (rows st) = n # ns"
      and u: "u \<notin> set (dismissed n)"
      and r: "rows (snd (POST_dismiss st params_id body))
          = map (\<lambda>m. if nid m = i then m\<lparr>dismissed := dismissed n @ [u]\<rparr> else m) (rows st)"
      by blast
    let ?g = "\<lambda>m. if nid m = i then m\<lparr>dismissed := dismissed m @ [u]\<rparr> else m"
    from assms have d: "distinct (map nid (rows st))" by (simp add: wf_db_def)
    from r update_unique_row [OF d f]
    have r': "rows (step st req) = map ?g (rows st)" using Dismiss by simp
    from f have "n \<in> set (filter (\<lambda>m. nid m = i) (rows st))" by simp
    then have n: "n \<in> set (rows st)" "nid n = i" by simp_all
    from d have inj: "inj_on nid (set (rows st))" by (simp add: distinct_map)
    have un: "u \<notin> set (dismissed m)" if "m \<in> set (rows st)" "nid m = i" for m
      using that n inj u by (auto dest: inj_onD)
    have ids: "nid \<circ> ?g = nid"
      by (rule ext) simp
    have "list_all (\<lambda>n. distinct (dismissed n)) (map ?g (rows st))"
      using assms un by (auto simp: wf_db_def list_all_iff)
    moreover have "distinct (map nid (map ?g (rows st)))"
      unfolding map_map ids by (rule d)
    ultimately have w: "wf_db (step st req)" unfolding wf_db_def r' by (rule conjI [rotated])
    have "list_all2 grown (rows st) (map ?g (rows st))"
      by (auto simp: list_all2_map2 list_all2_same grown_def)
    then have "evolves (rows st) (rows (step st req))" by (simp add: evolves_def r')
    with w show ?thesis by simp
  qed
qed

lemma run_rows:
  "wf_db st \<Longrightarrow> wf_db (run st reqs) \<and> evolves (rows st) (rows (run st reqs))"
proof (induction reqs arbitrary: st)
  case Nil
  then show ?case by (simp add: run_def evolves_refl)
next
  case (Cons req reqs)
  from step_rows [OF Cons.prems, of req]
  have w: "wf_db (step st req)" and e: "evolves (rows st) (rows (step st req))" by simp_all
  from Cons.IH [OF w] have "wf_db (run (step st req) reqs)"
    and "evolves (rows (step st req)) (rows (run (step st req) reqs))" by simp_all
  with e show ?case by (auto simp: run_def intro: evolves_trans)
qed

lemma wf_db_empty: "wf_db empty_db"
  by (simp add: wf_db_def empty_db_def)

lemma wf_db_scenario: "wf_db scenario_db"
  by (simp add: wf_db_def scenario_db_def)

section \<open>The claims\<close>

subsection \<open>Listing\<close>

text \<open>
  Claim C1. For a viewer with user id \<open>u\<close> and role \<open>r\<close> (both given, as the handler
  requires), the listing succeeds, its count is the length of the list, and a
  notification \<open>N\<close> is in it if and only if it is a row of the store with
  \<open>N.role = r\<close> or \<open>N.role = "all"\<close>, \<open>N.userId\<close> null or \<open>u\<close>, and \<open>u\<close> not in
  \<open>N.dismissed\<close>.
\<close>

theorem C1_listVisible_membership:
  assumes "u \<noteq> []" and "r \<noteq> []"
  shows "\<exists>ns st'. GET_notifications st (Some u) (Some r) = (Inr (ns, length ns), st')
           \<and> rows st' = rows st
           \<and> (\<forall>N. N \<in> set ns \<longleftrightarrow>
                 N \<in> set (rows st)
               \<and> (role N = r \<or> role N = ''all'')
               \<and> (userId N = None \<or> userId N = Some u)
               \<and> u \<notin> set (dismissed N))"
  unfolding GET_notifications_ok [OF assms]
  by (auto simp: role_match_def audience_match_def)

theorem C1_listVisible_membership_witness:
  "''u1'' \<noteq> [] \<and> ''admin'' \<noteq> []
 \<and> (\<exists>ns st'. GET_notifications scenario_db (Some ''u1'') (Some ''admin'')
                 = (Inr (ns, length ns), st')
           \<and> rows st' = rows scenario_db
           \<and> (\<forall>N. N \<in> set ns \<longleftrightarrow>
                 N \<in> set (rows scenario_db)
               \<and> (role N = ''admin'' \<or> role N = ''all'')
               \<and> (userId N = None \<or> userId N = Some ''u1'')
               \<and> ''u1'' \<notin> set (dismissed N)))"
  using C1_listVisible_membership [of "''u1''" "''admin''" scenario_db] by simp

text \<open>
  Claim C7. The listing is ordered by \<open>createdAt\<close> descending, and the notifications
  of one \<open>createdAt\<close> stand in it in the order of the store, which is insertion order.
\<close>

theorem C7_listVisible_order:
  assumes "u \<noteq> []" and "r \<noteq> []"
  shows "\<exists>ns st'. GET_notifications st (Some u) (Some r) = (Inr (ns, length ns), st')
           \<and> sorted_wrt (\<lambda>a b. createdAt b \<le> createdAt a) ns
           \<and> (\<forall>t. filter (\<lambda>n. createdAt n = t) ns =
                    filter (\<lambda>n. createdAt n = t)
                      (filter (\<lambda>n. (role n = r \<or> role n = ''all'')
                                 \<and> (userId n = None \<or> userId n = Some u)
                                 \<and> u \<notin> set (dismissed n)) (rows st)))"
proof -
  let ?k = "\<lambda>n. - createdAt n"
  let ?P = "\<lambda>n. role_match r n \<and> audience_match u n"
  let ?D = "\<lambda>n. u \<notin> set (dismissed n)"
  let ?ns = "filter ?D (sort_key ?k (filter ?P (rows st)))"
  have "sorted (map ?k ?ns)"
    by (simp add: sorted_filter)
  then have desc: "sorted_wrt (\<lambda>a b. createdAt b \<le> createdAt a) ?ns"
    by (simp add: sorted_map)
  have ties: "filter (\<lambda>n. createdAt n = t) ?ns =
      filter (\<lambda>n. createdAt n = t)
        (filter (\<lambda>n. (role n = r \<or> role n = ''all'')
                    \<and> (userId n = None \<or> userId n = Some u)
                    \<and> u \<notin> set (dismissed n)) (rows st))" for t
  proof -
    have "filter (\<lambda>n. createdAt n = t) ?ns
        = filter ?D (filter (\<lambda>n. ?k n = - t) (sort_key ?k (filter ?P (rows st))))"
      by (simp add: conj_commute)
    also have "\<dots> = filter ?D (filter (\<lambda>n. ?k n = - t) (filter ?P (rows st)))"
      by (simp only: sort_key_stable)
    finally show ?thesis
      by (auto simp: role_match_def audience_match_def intro: filter_cong)
  qed
  show ?thesis
    unfolding GET_notifications_ok [OF assms] using desc ties by blast
qed

theorem C7_listVisible_order_witness:
  "''u1'' \<noteq> [] \<and> ''admin'' \<noteq> []
 \<and> (\<exists>ns st'. GET_notifications scenario_db (Some ''u1'') (Some ''admin'')
                 = (Inr (ns, length ns), st')
           \<and> sorted_wrt (\<lambda>a b. createdAt b \<le> createdAt a) ns
           \<and> (\<forall>t. filter (\<lambda>n. createdAt n = t) ns =
                    filter (\<lambda>n. createdAt n = t)
                      (filter (\<lambda>n. (role n = ''admin'' \<or> role n = ''all'')
                                 \<and> (userId n = None \<or> userId n = Some ''u1'')
                                 \<and> ''u1'' \<notin> set (dismissed n)) (rows scenario_db))))
 \<and> map nid (fst (projr (fst
       (GET_notifications scenario_db (Some ''u1'') (Some ''admin''))))) = [2, 3, 1]"
proof -
  have "map nid (fst (projr (fst
       (GET_notifications scenario_db (Some ''u1'') (Some ''admin''))))) = [2, 3, 1]"
    by (simp add: GET_notifications_ok scenario_db_def role_match_def audience_match_def)
  with C7_listVisible_order [of "''u1''" "''admin''" scenario_db] show ?thesis by simp
qed

subsection \<open>Creation\<close>

text \<open>
  Claim C4. A create request whose \<open>currentUserRole\<close> is not \<open>"admin"\<close> is answered
  403 (Forbidden) whatever its title, message, role and user id are, and the store is
  left as it was: no row is added and no statement is issued.
\<close>

theorem C4_create_forbidden:
  assumes "b_currentUserRole b \<noteq> Some ''admin''"
  shows "POST_notifications st (Some b) now = (Inl Forbidden, st)"
  using assms by (simp add: POST_notifications_def)

theorem C4_create_forbidden_witness:
  "b_currentUserRole user_body \<noteq> Some ''admin''
 \<and> POST_notifications scenario_db (Some user_body) 40 = (Inl Forbidden, scenario_db)"
proof -
  have "b_currentUserRole user_body \<noteq> Some ''admin''"
    by (simp add: user_body_def admin_body_def)
  with C4_create_forbidden [of user_body scenario_db 40] show ?thesis by simp
qed

text \<open>
  Claim C5. A successful create appends one notification whose id is the highest id of
  the store plus 1, or 1 when the store is empty; two successful creates in a row on
  an empty store give the ids 1 and 2.
\<close>

theorem C5_create_next_id:
  "(POST_notifications st body now = (Inr n, st') \<longrightarrow>
      rows st' = rows st @ [n]
    \<and> nid n = (if rows st = [] then 1 else Max (nid ` set (rows st)) + 1))
 \<and> (rows st = [] \<and> POST_notifications st body1 t1 = (Inr n1, st1)
      \<and> POST_notifications st1 body2 t2 = (Inr n2, st2) \<longrightarrow>
      nid n1 = 1 \<and> nid n2 = nid n1 + 1)"
proof (intro conjI impI)
  assume a: "POST_notifications st body now = (Inr n, st')"
  from POST_notifications_Inr [OF a] show "rows st' = rows st @ [n]" by simp
  from POST_notifications_Inr [OF a]
  show "nid n = (if rows st = [] then 1 else Max (nid ` set (rows st)) + 1)"
    using next_id_value [of "map nid (rows st)"] by simp
next
  assume a: "rows st = [] \<and> POST_notifications st body1 t1 = (Inr n1, st1)
      \<and> POST_notifications st1 body2 t2 = (Inr n2, st2)"
  then have e: "rows st = []"
    and c1: "POST_notifications st body1 t1 = (Inr n1, st1)"
    and c2: "POST_notifications st1 body2 t2 = (Inr n2, st2)" by simp_all
  from POST_notifications_Inr [OF c1] e
  have r1: "rows st1 = [n1]" and i1: "nid n1 = 1" by (simp_all add: or_zero_simps)
  from POST_notifications_Inr [OF c2] r1
  have "nid n2 = nid n1 + 1" by (simp add: or_zero_simps)
  with i1 show "nid n1 = 1" and "nid n2 = nid n1 + 1" by simp_all
qed

theorem C5_create_next_id_witness:
  "\<exists>n1 st1 n2 st2 n5 st5.
      POST_notifications empty_db (Some admin_body) 40 = (Inr n1, st1)
    \<and> POST_notifications st1 (Some admin_body) 41 = (Inr n2, st2)
    \<and> nid n1 = 1 \<and> nid n2 = 2 \<and> rows st2 = [n1, n2]
    \<and> POST_notifications scenario_db (Some admin_body) 40 = (Inr n5, st5)
    \<and> nid n5 = 5 \<and> rows st5 = rows scenario_db @ [n5]"
proof -
  have adm: "b_currentUserRole admin_body = Some ''admin''" "truthy (b_title admin_body)"
    "truthy (b_message admin_body)" "truthy (b_role admin_body)"
    "str_of (b_role admin_body) \<in> set validRoles"
    by (simp_all add: admin_body_def truthy_def str_of_def validRoles_def)
  from POST_notifications_ok [OF adm, of empty_db 40]
  obtain n1 st1 where c1: "POST_notifications empty_db (Some admin_body) 40 = (Inr n1, st1)"
    by blast
  from POST_notifications_ok [OF adm, of st1 41]
  obtain n2 st2 where c2: "POST_notifications st1 (Some admin_body) 41 = (Inr n2, st2)"
    by blast
  from POST_notifications_ok [OF adm, of scenario_db 40]
  obtain n5 st5 where c5: "POST_notifications scenario_db (Some admin_body) 40 = (Inr n5, st5)"
    by blast
  have e: "rows empty_db = []" by (simp add: empty_db_def)
  from C5_create_next_id [of empty_db "Some admin_body" 40 n1 st1 "Some admin_body" 40 n1 st1
      "Some admin_body" 41 n2 st2] c1 c2 e
  have 1: "rows st1 = [n1]" "nid n1 = 1" "nid n2 = 2" by simp_all
  from C5_create_next_id [of st1 "Some admin_body" 41 n2 st2] c2 1(1)
  have 2: "rows st2 = [n1, n2]" by simp
  from C5_create_next_id [of scenario_db "Some admin_body" 40 n5 st5] c5
  have 3: "rows st5 = rows scenario_db @ [n5]" "nid n5 = 5"
    by (simp_all add: scenario_db_def)
  from c1 c2 c5 1 2 3 show ?thesis by blast
qed

text \<open>
  Claim C6. A create request of an admin is answered 400 (InvalidInput) exactly when
  its title, message or role is missing or empty, or its role is none of \<open>admin\<close>,
  \<open>editor\<close>, \<open>user\<close>, \<open>all\<close>; the store is then left as it was.
\<close>

theorem C6_create_invalid_input:
  assumes "b_currentUserRole b = Some ''admin''"
  shows "(fst (POST_notifications st (Some b) now) = Inl InvalidInput \<longleftrightarrow>
            \<not> truthy (b_title b) \<or> \<not> truthy (b_message b) \<or> \<not> truthy (b_role b)
          \<or> str_of (b_role b) \<notin> {''admin'', ''editor'', ''user'', ''all''})
       \<and> (fst (POST_notifications st (Some b) now) = Inl InvalidInput \<longrightarrow>
            snd (POST_notifications st (Some b) now) = st)"
  using assms
  by (auto simp: POST_notifications_def validRoles_def select_max_id_def insert_row_def
      Let_def split: if_splits)

theorem C6_create_invalid_input_witness:
  "b_currentUserRole untitled_body = Some ''admin''
 \<and> \<not> truthy (b_title untitled_body)
 \<and> POST_notifications scenario_db (Some untitled_body) 40 = (Inl InvalidInput, scenario_db)
 \<and> b_currentUserRole admin_body = Some ''admin''
 \<and> truthy (b_title admin_body) \<and> truthy (b_message admin_body) \<and> truthy (b_role admin_body)
 \<and> str_of (b_role admin_body) \<in> {''admin'', ''editor'', ''user'', ''all''}
 \<and> fst (POST_notifications scenario_db (Some admin_body) 40) \<noteq> Inl InvalidInput"
proof -
  have u: "b_currentUserRole untitled_body = Some ''admin''" "\<not> truthy (b_title untitled_body)"
    by (simp_all add: untitled_body_def admin_body_def truthy_def)
  have a: "b_currentUserRole admin_body = Some ''admin''" "truthy (b_title admin_body)"
    "truthy (b_message admin_body)" "truthy (b_role admin_body)"
    "str_of (b_role admin_body) \<in> {''admin'', ''editor'', ''user'', ''all''}"
    by (simp_all add: admin_body_def truthy_def str_of_def)
  from C6_create_invalid_input [OF u(1), of scenario_db 40] u(2)
  have 1: "POST_notifications scenario_db (Some untitled_body) 40 = (Inl InvalidInput, scenario_db)"
    by (simp add: prod_eq_iff)
  from C6_create_invalid_input [OF a(1), of scenario_db 40] a(2-5)
  have 2: "fst (POST_notifications scenario_db (Some admin_body) 40) \<noteq> Inl InvalidInput"
    by simp
  from u a 1 2 show ?thesis by simp
qed

text \<open>
  Claim C10. A valid create request of an admin whose \<open>userId\<close> is the empty string
  or missing appends a notification with \<open>userId\<close> null and the title, message and
  role of the request, dismissed by nobody. It is a broadcast: whoever the viewer is,
  it is listed for them exactly when the role of the request is theirs or is \<open>all\<close>.
\<close>

theorem C10_falsy_userId_broadcast:
  assumes "b_currentUserRole b = Some ''admin''"
    and "truthy (b_title b)" and "truthy (b_message b)" and "truthy (b_role b)"
    and "str_of (b_role b) \<in> set validRoles"
    and "\<not> truthy (b_userId b)"
  shows "\<exists>n st'. POST_notifications st (Some b) now = (Inr n, st')
         \<and> userId n = None
         \<and> title n = str_of (b_title b) \<and> message n = str_of (b_message b)
         \<and> role n = str_of (b_role b) \<and> dismissed n = [] \<and> createdAt n = now
         \<and> rows st' = rows st @ [n]
         \<and> (\<forall>u r. u \<noteq> [] \<and> r \<noteq> [] \<longrightarrow>
               (\<exists>ns st''. GET_notifications st' (Some u) (Some r) = (Inr (ns, length ns), st'')
                  \<and> (n \<in> set ns \<longleftrightarrow> str_of (b_role b) = r \<or> str_of (b_role b) = ''all'')))"
proof -
  from POST_notifications_ok [OF assms(1-5), of st now] assms(6)
  obtain n where c: "POST_notifications st (Some b) now =
           (Inr n, st\<lparr>rows := rows st @ [n], oplog := oplog st @ [Select, Insert]\<rparr>)"
    and u: "userId n = None" and d: "dismissed n = []"
    and f: "title n = str_of (b_title b)" "message n = str_of (b_message b)"
      "role n = str_of (b_role b)" "createdAt n = now" by auto
  let ?st' = "st\<lparr>rows := rows st @ [n], oplog := oplog st @ [Select, Insert]\<rparr>"
  have "\<exists>ns st''. GET_notifications ?st' (Some v) (Some r) = (Inr (ns, length ns), st'')
                  \<and> (n \<in> set ns \<longleftrightarrow> str_of (b_role b) = r \<or> str_of (b_role b) = ''all'')"
    if "v \<noteq> []" "r \<noteq> []" for v r
    unfolding GET_notifications_ok [OF that] using u d f(3)
    by (simp add: role_match_def audience_match_def)
  with c u d f show ?thesis by auto
qed

theorem C10_falsy_userId_broadcast_witness:
  "b_currentUserRole admin_body = Some ''admin''
 \<and> truthy (b_title admin_body) \<and> truthy (b_message admin_body) \<and> truthy (b_role admin_body)
 \<and> str_of (b_role admin_body) \<in> set validRoles
 \<and> \<not> truthy (b_userId admin_body)
 \<and> (\<exists>n st'. POST_notifications scenario_db (Some admin_body) 40 = (Inr n, st')
         \<and> userId n = None
         \<and> title n = ''Hello'' \<and> message n = ''World''
         \<and> role n = ''all'' \<and> dismissed n = [] \<and> createdAt n = 40
         \<and> rows st' = rows scenario_db @ [n]
         \<and> (\<exists>ns st''. GET_notifications st' (Some ''u7'') (Some ''editor'')
                          = (Inr (ns, length ns), st'')
                  \<and> n \<in> set ns))"
proof -
  have a: "b_currentUserRole admin_body = Some ''admin''" "truthy (b_title admin_body)"
    "truthy (b_message admin_body)" "truthy (b_role admin_body)"
    "str_of (b_role admin_body) \<in> set validRoles" "\<not> truthy (b_userId admin_body)"
    by (simp_all add: admin_body_def truthy_def str_of_def validRoles_def)
  have s: "str_of (b_title admin_body) = ''Hello''" "str_of (b_message admin_body) = ''World''"
    "str_of (b_role admin_body) = ''all''"
    by (simp_all add: admin_body_def str_of_def)
  from C10_falsy_userId_broadcast [OF a, of scenario_db 40]
  obtain n st' where c: "POST_notifications scenario_db (Some admin_body) 40 = (Inr n, st')"
    and f: "userId n = None" "title n = ''Hello''" "message n = ''World''" "role n = ''all''"
      "dismissed n = []" "createdAt n = 40" "rows st' = rows scenario_db @ [n]"
    and v: "\<forall>u r. u \<noteq> [] \<and> r \<noteq> [] \<longrightarrow>
               (\<exists>ns st''. GET_notifications st' (Some u) (Some r) = (Inr (ns, length ns), st'')
                  \<and> (n \<in> set ns \<longleftrightarrow> ''all'' = r \<or> True))"
    unfolding s by auto
  from v have "\<exists>ns st''. GET_notifications st' (Some ''u7'') (Some ''editor'')
                          = (Inr (ns, length ns), st'') \<and> n \<in> set ns"
    by simp
  with a c f show ?thesis by blast
qed

subsection \<open>Dismissal\<close>

text \<open>
  Claim C2. Dismissing twice in a row leaves the same rows, hence the same
  \<open>dismissed\<close> arrays, as dismissing once, whatever the request is. When the request
  names an existing notification (a path id that parses to its nonzero id \<open>i\<close>) and a
  user \<open>u\<close>, the first call succeeds and the second call succeeds too: it answers with
  the record as it stands in the store, which holds \<open>u\<close>, and issues no insert or update.
\<close>

theorem C2_dismiss_idempotent:
  "rows (snd (POST_dismiss (snd (POST_dismiss st params_id body)) params_id body))
     = rows (snd (POST_dismiss st params_id body))
 \<and> (params_id = Some p \<and> parseInt p = Finite i \<and> i \<noteq> 0
      \<and> body = Some b \<and> d_userId b = Some u \<and> u \<noteq> []
      \<and> i \<in> nid ` set (rows st) \<longrightarrow>
      (\<exists>ok1 st1 n st2.
           POST_dismiss st params_id body = (Inr ok1, st1)
         \<and> POST_dismiss st1 params_id body = (Inr (AlreadyDismissed n), st2)
         \<and> n \<in> set (rows st1) \<and> nid n = i \<and> u \<in> set (dismissed n)
         \<and> rows st2 = rows st1 \<and> mutations st2 = mutations st1))"
proof (intro conjI impI)
  show "rows (snd (POST_dismiss (snd (POST_dismiss st params_id body)) params_id body))
     = rows (snd (POST_dismiss st params_id body))"
    by (rule POST_dismiss_rows_twice)
next
  assume a: "params_id = Some p \<and> parseInt p = Finite i \<and> i \<noteq> 0
      \<and> body = Some b \<and> d_userId b = Some u \<and> u \<noteq> []
      \<and> i \<in> nid ` set (rows st)"
  then have "parseInt p = Finite i" "i \<noteq> 0" "d_userId b = Some u" "u \<noteq> []"
    "i \<in> nid ` set (rows st)" by simp_all
  from POST_dismiss_again [OF this] a
  show "\<exists>ok1 st1 n st2.
           POST_dismiss st params_id body = (Inr ok1, st1)
         \<and> POST_dismiss st1 params_id body = (Inr (AlreadyDismissed n), st2)
         \<and> n \<in> set (rows st1) \<and> nid n = i \<and> u \<in> set (dismissed n)
         \<and> rows st2 = rows st1 \<and> mutations st2 = mutations st1"
    by simp
qed

theorem C2_dismiss_idempotent_witness:
  "parseInt ''1'' = Finite 1 \<and> d_userId u1_body = Some ''u1''
 \<and> (1 :: int) \<in> nid ` set (rows scenario_db)
 \<and> (\<exists>ok1 st1 n st2.
           POST_dismiss scenario_db (Some ''1'') (Some u1_body) = (Inr ok1, st1)
         \<and> POST_dismiss st1 (Some ''1'') (Some u1_body) = (Inr (AlreadyDismissed n), st2)
         \<and> n \<in> set (rows st1) \<and> nid n = 1 \<and> ''u1'' \<in> set (dismissed n)
         \<and> rows st2 = rows st1 \<and> mutations st2 = mutations st1)"
proof -
  have p: "parseInt ''1'' = Finite 1" by code_simp
  have b: "d_userId u1_body = Some ''u1''" by (simp add: u1_body_def)
  have i: "(1 :: int) \<in> nid ` set (rows scenario_db)" by (simp add: scenario_db_def)
  from C2_dismiss_idempotent
    [of scenario_db "Some ''1''" "Some u1_body" "''1''" 1 u1_body "''u1''"] p b i
  show ?thesis by simp
qed

text \<open>
  Claim C3, as the code has it. A dismissal whose path id parses to a nonzero finite
  number \<open>i\<close> that no notification has, by a user \<open>u\<close>, is answered 404 (NotFound); the
  rows are left as they were, no insert or update is issued, and every listing is the
  same after the call as before. (The id 0 is answered 400 instead, see C9.)
\<close>

theorem C3_dismiss_not_found:
  assumes "parseInt p = Finite i" and "i \<noteq> 0" and "d_userId b = Some u" and "u \<noteq> []"
    and "i \<notin> nid ` set (rows st)"
  shows "\<exists>st'. POST_dismiss st (Some p) (Some b) = (Inl NotFound, st')
           \<and> rows st' = rows st \<and> mutations st' = mutations st
           \<and> (\<forall>v r. fst (GET_notifications st' v r) = fst (GET_notifications st v r))"
proof -
  have "filter (\<lambda>n. nid n = i) (rows st) = []"
    using assms(5) by (auto simp: filter_empty_conv)
  then have "POST_dismiss st (Some p) (Some b)
      = (Inl NotFound, st\<lparr>oplog := oplog st @ [Select]\<rparr>)"
    unfolding POST_dismiss_valid [OF assms(1-4)] by simp
  then show ?thesis
    by (simp add: GET_notifications_oplog mutations_select)
qed

theorem C3_dismiss_not_found_witness:
  "parseInt ''999'' = Finite 999 \<and> d_userId u1_body = Some ''u1''
 \<and> (999 :: int) \<notin> nid ` set (rows scenario_db)
 \<and> (\<exists>st'. POST_dismiss scenario_db (Some ''999'') (Some u1_body) = (Inl NotFound, st')
           \<and> rows st' = rows scenario_db \<and> mutations st' = mutations scenario_db
           \<and> (\<forall>v r. fst (GET_notifications st' v r) = fst (GET_notifications scenario_db v r)))"
proof -
  have p: "parseInt ''999'' = Finite 999" by code_simp
  have b: "d_userId u1_body = Some ''u1''" by (simp add: u1_body_def)
  have i: "(999 :: int) \<notin> nid ` set (rows scenario_db)" by (simp add: scenario_db_def)
  from p b i C3_dismiss_not_found [OF p _ b _ i] show ?thesis by simp
qed

text \<open>
  The claim C3 as stated fails for the id 0: no notification of the example store has
  the id 0, and the dismissal of \<open>0\<close> by \<open>u1\<close> is answered 400, not 404.
\<close>

theorem C3_id_zero_counterexample:
  "(0 :: int) \<notin> nid ` set (rows scenario_db)
 \<and> parseInt ''0'' = Finite 0
 \<and> fst (POST_dismiss scenario_db (Some ''0'') (Some u1_body)) = Inl InvalidInput
 \<and> fst (POST_dismiss scenario_db (Some ''0'') (Some u1_body)) \<noteq> Inl NotFound"
proof -
  have p: "parseInt ''0'' = Finite 0" by code_simp
  then have "parseInt (str_of (Some ''0'')) = NaN \<or> parseInt (str_of (Some ''0'')) = Finite 0"
    by (simp add: str_of_def)
  then have "POST_dismiss scenario_db (Some ''0'') (Some u1_body) = (Inl InvalidInput, scenario_db)"
    by (rule POST_dismiss_invalid_id)
  with p show ?thesis by (simp add: scenario_db_def)
qed




subsection \<open>The dismissed sets over time\<close>

text \<open>
  Claim C8. From a well-formed store, after any sequence of create, list and dismiss
  requests, no \<open>dismissed\<close> array holds a user twice, and every notification of the
  initial store is still there, unchanged but for its \<open>dismissed\<close> array, which has
  lost no user and is no shorter.
\<close>

theorem C8_dismissed_monotone:
  assumes "wf_db st"
  shows "(\<forall>n \<in> set (rows (run st reqs)). distinct (dismissed n))
       \<and> length (rows st) \<le> length (rows (run st reqs))
       \<and> (\<forall>k < length (rows st).
            rows (run st reqs) ! k = (rows st ! k)\<lparr>dismissed := dismissed (rows (run st reqs) ! k)\<rparr>
          \<and> set (dismissed (rows st ! k)) \<subseteq> set (dismissed (rows (run st reqs) ! k))
          \<and> length (dismissed (rows st ! k)) \<le> length (dismissed (rows (run st reqs) ! k)))"
proof -
  from run_rows [OF assms, of reqs]
  have w: "wf_db (run st reqs)" and e: "evolves (rows st) (rows (run st reqs))" by simp_all
  from w have 1: "\<forall>n \<in> set (rows (run st reqs)). distinct (dismissed n)"
    by (simp add: wf_db_def list_all_iff)
  from e have 2: "length (rows st) \<le> length (rows (run st reqs))" by (simp add: evolves_def)
  have 3: "grown (rows st ! k) (rows (run st reqs) ! k)" if "k < length (rows st)" for k
    using e that 2 by (auto simp: evolves_def list_all2_conv_all_nth)
  from 1 2 3 show ?thesis unfolding grown_def by blast
qed

theorem C8_dismissed_monotone_witness:
  "wf_db scenario_db
 \<and> (\<exists>st'. st' = run scenario_db
        [Dismiss (Some ''1'') (Some u1_body), Dismiss (Some ''1'') (Some u1_body),
         Create (Some admin_body) 40, ListVisible (Some ''u1'') (Some ''admin'')]
      \<and> (\<forall>n \<in> set (rows st'). distinct (dismissed n))
      \<and> length (rows scenario_db) \<le> length (rows st')
      \<and> (\<forall>k < length (rows scenario_db).
            rows st' ! k = (rows scenario_db ! k)\<lparr>dismissed := dismissed (rows st' ! k)\<rparr>
          \<and> set (dismissed (rows scenario_db ! k)) \<subseteq> set (dismissed (rows st' ! k))
          \<and> length (dismissed (rows scenario_db ! k)) \<le> length (dismissed (rows st' ! k))))"
  using wf_db_scenario C8_dismissed_monotone [OF wf_db_scenario] by simp

end
